theory Spec2Isabelle
  imports Main "HOL-Library.Word" "HOL-Library.Log_Nat"
begin

section \<open>Go's numeric types\<close>

text \<open>
  \<open>int64\<close> is a 64-bit word: \<open>-\<close> wraps and \<open>sint\<close> reads the two's complement value.
  \<open>time.Duration\<close> is an \<open>int64\<close> count of nanoseconds.
\<close>

type_synonym int64 = "64 word"

text \<open>
  \<open>float64\<close> is IEEE 754 binary64: a NaN, the two infinities and the finite values, each
  finite value kept as the rational number it denotes. The two zeros are identified:
  the limiter adds, multiplies, subtracts, takes \<open>math.Min\<close> and compares with \<open>>=\<close>,
  and never divides, so the sign of a zero is not observable in what it returns or in
  what it decides.
\<close>

datatype f64 = NaN | PInf | NInf | Fin rat

definition pow2 :: "int \<Rightarrow> rat" where
  "pow2 e = (if 0 \<le> e then 2 ^ nat e else 1 / 2 ^ nat (- e))"

text \<open>\<open>ilog2 a\<close> is the binary exponent of a positive rational: \<open>2^e \<le> a < 2^(e+1)\<close>.\<close>

definition ilog2 :: "rat \<Rightarrow> int" where
  "ilog2 a = (if 1 \<le> a then bitlen \<lfloor>a\<rfloor> - 1 else - bitlen (\<lceil>1 / a\<rceil> - 1))"

text \<open>Rounding to the nearest integer, ties to the even one.\<close>

definition round_even :: "rat \<Rightarrow> int" where
  "round_even x =
     (let f = \<lfloor>x\<rfloor>; d = x - of_int f
      in if d < 1 / 2 then f else if 1 / 2 < d then f + 1 else if even f then f else f + 1)"

text \<open>
  \<open>rnd q\<close> is the binary64 value of the exact result \<open>q\<close> under round-to-nearest-even:
  53 significant bits, minimal exponent \<open>-1022\<close> (below it the spacing stays \<open>2^-1074\<close>,
  the subnormal range), overflow to an infinity from \<open>2^1024 - 2^970\<close> on.
\<close>

definition rnd :: "rat \<Rightarrow> f64" where
  "rnd q =
     (if q = 0 then Fin 0
      else let a = \<bar>q\<bar>;
               e = max (ilog2 a) (- 1022);
               u = pow2 (e - 52);
               r = of_int (round_even (a / u)) * u
           in if pow2 1024 \<le> r then (if 0 < q then PInf else NInf)
              else Fin (if 0 < q then r else - r))"

text \<open>
  The product and the sum of \<open>tokens + elapsed * refillRate\<close> are rounded one after the
  other (no fused multiply-add).

  \<open>ulp a\<close> is the spacing of the binary64 values around a positive \<open>a\<close>, the unit
  \<open>rnd\<close> rounds to.
\<close>

definition ulp :: "rat \<Rightarrow> rat" where
  "ulp a = pow2 (max (ilog2 a) (- 1022) - 52)"

text \<open>A finite value is a binary64 value when rounding leaves it as it is.\<close>

definition is_f64 :: "f64 \<Rightarrow> bool" where
  "is_f64 x = (case x of Fin q \<Rightarrow> rnd q = Fin q | _ \<Rightarrow> True)"

fun f64_neg :: "f64 \<Rightarrow> f64" where
  "f64_neg NaN = NaN"
| "f64_neg PInf = NInf"
| "f64_neg NInf = PInf"
| "f64_neg (Fin a) = Fin (- a)"

fun f64_add :: "f64 \<Rightarrow> f64 \<Rightarrow> f64" where
  "f64_add NaN _ = NaN"
| "f64_add _ NaN = NaN"
| "f64_add PInf NInf = NaN"
| "f64_add NInf PInf = NaN"
| "f64_add PInf _ = PInf"
| "f64_add _ PInf = PInf"
| "f64_add NInf _ = NInf"
| "f64_add _ NInf = NInf"
| "f64_add (Fin a) (Fin b) = rnd (a + b)"

definition f64_sub :: "f64 \<Rightarrow> f64 \<Rightarrow> f64" where
  "f64_sub x y = f64_add x (f64_neg y)"

definition f64_sgn_inf :: "bool \<Rightarrow> f64" where
  "f64_sgn_inf positive = (if positive then PInf else NInf)"

fun f64_mul :: "f64 \<Rightarrow> f64 \<Rightarrow> f64" where
  "f64_mul NaN _ = NaN"
| "f64_mul _ NaN = NaN"
| "f64_mul PInf PInf = PInf"
| "f64_mul PInf NInf = NInf"
| "f64_mul NInf PInf = NInf"
| "f64_mul NInf NInf = PInf"
| "f64_mul PInf (Fin b) = (if b = 0 then NaN else f64_sgn_inf (0 < b))"
| "f64_mul NInf (Fin b) = (if b = 0 then NaN else f64_sgn_inf (b < 0))"
| "f64_mul (Fin a) PInf = (if a = 0 then NaN else f64_sgn_inf (0 < a))"
| "f64_mul (Fin a) NInf = (if a = 0 then NaN else f64_sgn_inf (a < 0))"
| "f64_mul (Fin a) (Fin b) = rnd (a * b)"

text \<open>The comparisons \<open>x >= y\<close> and \<open>x < y\<close>: false as soon as a NaN is involved.\<close>

fun f64_ge :: "f64 \<Rightarrow> f64 \<Rightarrow> bool" where
  "f64_ge NaN _ = False"
| "f64_ge _ NaN = False"
| "f64_ge PInf _ = True"
| "f64_ge _ NInf = True"
| "f64_ge NInf _ = False"
| "f64_ge (Fin a) PInf = False"
| "f64_ge (Fin a) (Fin b) = (b \<le> a)"

fun f64_lt :: "f64 \<Rightarrow> f64 \<Rightarrow> bool" where
  "f64_lt NaN _ = False"
| "f64_lt _ NaN = False"
| "f64_lt _ NInf = False"
| "f64_lt NInf _ = True"
| "f64_lt PInf _ = False"
| "f64_lt (Fin a) PInf = True"
| "f64_lt (Fin a) (Fin b) = (a < b)"

text \<open>
  \<open>math.Min\<close>, with its special cases in the order of the library's \<open>switch\<close>:
  a negative infinity wins first, then a NaN, then the smaller operand.
\<close>

definition math_Min :: "f64 \<Rightarrow> f64 \<Rightarrow> f64" where
  "math_Min x y =
     (if x = NInf \<or> y = NInf then NInf
      else if x = NaN \<or> y = NaN then NaN
      else if f64_lt x y then x else y)"

text \<open>The conversion \<open>float64(n)\<close> of an \<open>int64\<close>.\<close>

definition float64 :: "int64 \<Rightarrow> f64" where
  "float64 n = rnd (of_int (sint n))"

section \<open>The Redis client\<close>

text \<open>
  A Redis value is a byte string. The limiter observes a stored string only through
  \<open>strconv.ParseFloat(s, 64)\<close> (the tokens key) and \<open>strconv.ParseInt(s, 10, 64)\<close> (the
  timestamp key), so a stored string is kept as what these two parsers return on it;
  \<open>None\<close> is a parse error.
\<close>

record rvalue =
  as_float :: "f64 option"
  as_int :: "int64 option"

text \<open>
  The strings the client writes for a \<open>float64\<close> argument (\<open>strconv.AppendFloat\<close> with
  format \<open>'f'\<close> and precision \<open>-1\<close>, the shortest decimal that parses back to the same
  value) and for an \<open>int64\<close> argument (decimal digits).
\<close>

definition float_arg :: "f64 \<Rightarrow> rvalue" where
  "float_arg x =
     \<lparr>as_float = Some x,
      as_int = (case x of
                  Fin q \<Rightarrow> if of_int \<lfloor>q\<rfloor> = q \<and> - (2 ^ 63) \<le> q \<and> q < 2 ^ 63
                           then Some (word_of_int \<lfloor>q\<rfloor>) else None
                | _ \<Rightarrow> None)\<rparr>"

definition int_arg :: "int64 \<Rightarrow> rvalue" where
  "int_arg n = \<lparr>as_float = Some (float64 n), as_int = Some n\<rparr>"

record entry =
  ent_val :: rvalue
  ent_ttl :: int64

datatype setcmd = SET string rvalue int64

datatype cmd = GET string | MULTI_EXEC "setcmd list"

text \<open>
  What can go wrong with one round trip to the server: the command is lost or refused
  (no effect, an error), or it is applied and the reply is lost (the effect, and an
  error all the same).
\<close>

datatype fault = NoFault | Dropped | ReplyLost

datatype redis_error = RedisNil | ConnError | ParseError

text \<open>
  The server as the client sees it: the keys, the faults of the coming round trips (none
  left means none occur), and the commands issued so far.
\<close>

record redis =
  kv :: "string \<rightharpoonup> entry"
  faults :: "fault list"
  history :: "cmd list"

definition next_fault :: "fault list \<Rightarrow> fault" where
  "next_fault fs = (case fs of [] \<Rightarrow> NoFault | f # _ \<Rightarrow> f)"

definition round_trip :: "redis \<Rightarrow> cmd \<Rightarrow> fault \<times> redis" where
  "round_trip r c =
     (next_fault (faults r), r\<lparr>faults := tl (faults r), history := history r @ [c]\<rparr>)"

definition Get :: "redis \<Rightarrow> string \<Rightarrow> (redis_error + rvalue) \<times> redis" where
  "Get r k =
     (let (f, r1) = round_trip r (GET k)
      in if f \<noteq> NoFault then (Inl ConnError, r1)
         else (case kv r1 k of None \<Rightarrow> (Inl RedisNil, r1) | Some e \<Rightarrow> (Inr (ent_val e), r1)))"

definition Float64 :: "redis_error + rvalue \<Rightarrow> redis_error + f64" where
  "Float64 reply =
     (case reply of
        Inl err \<Rightarrow> Inl err
      | Inr v \<Rightarrow> (case as_float v of None \<Rightarrow> Inl ParseError | Some x \<Rightarrow> Inr x))"

definition Int64 :: "redis_error + rvalue \<Rightarrow> redis_error + int64" where
  "Int64 reply =
     (case reply of
        Inl err \<Rightarrow> Inl err
      | Inr v \<Rightarrow> (case as_int v of None \<Rightarrow> Inl ParseError | Some n \<Rightarrow> Inr n))"

fun apply_sets :: "setcmd list \<Rightarrow> (string \<rightharpoonup> entry) \<Rightarrow> (string \<rightharpoonup> entry)" where
  "apply_sets [] m = m"
| "apply_sets (SET k v t # cs) m = apply_sets cs (m(k \<mapsto> \<lparr>ent_val = v, ent_ttl = t\<rparr>))"

text \<open>
  \<open>TxPipeline\<close> queues the commands; \<open>Exec\<close> sends them as one \<open>MULTI\<close>/\<open>EXEC\<close>
  transaction: all of them are applied, or none.
\<close>

definition Exec :: "redis \<Rightarrow> setcmd list \<Rightarrow> redis_error option \<times> redis" where
  "Exec r pipe =
     (let (f, r1) = round_trip r (MULTI_EXEC pipe)
      in case f of
           NoFault \<Rightarrow> (None, r1\<lparr>kv := apply_sets pipe (kv r1)\<rparr>)
         | Dropped \<Rightarrow> (Some ConnError, r1)
         | ReplyLost \<Rightarrow> (Some ConnError, r1\<lparr>kv := apply_sets pipe (kv r1)\<rparr>))"

section \<open>The limiter\<close>

datatype redis_client = Client string nat

record RedisTokenBucket =
  client :: redis_client
  capacity :: f64
  refillRate :: f64
  ttl :: int64

text \<open>
  \<open>NewRedisTokenBucket\<close> returns a pointer; \<open>None\<close> stands for no limiter (a nil
  pointer or a panic).
\<close>

definition NewRedisTokenBucket ::
  "redis_client \<Rightarrow> f64 \<Rightarrow> f64 \<Rightarrow> int64 \<Rightarrow> RedisTokenBucket option" where
  "NewRedisTokenBucket cl cap rate t =
     Some \<lparr>client = cl, capacity = cap, refillRate = rate, ttl = t\<rparr>"

definition getIPKey :: "string \<Rightarrow> string" where
  "getIPKey ip = ''rate_limit:ip:'' @ ip"

datatype log_line =
    ErrorUpdatingRedis redis_error
  | RequestRejected string f64
  | UnableToDetermineIP
  | RateLimitExceeded string
  | RequestAllowed string

text \<open>
  \<open>AllowRequest\<close>, with the clock reading \<open>now = time.Now().Unix()\<close> and the server as
  explicit arguments. It returns the boolean, the lines logged and the server afterwards.
\<close>

definition AllowRequest ::
  "RedisTokenBucket \<Rightarrow> int64 \<Rightarrow> redis \<Rightarrow> string \<Rightarrow> bool \<times> log_line list \<times> redis" where
  "AllowRequest rtb now r0 ip =
     (let redisKey = getIPKey ip;
          (reply1, r1) = Get r0 (redisKey @ '':tokens'');
          tokens = (case Float64 reply1 of Inr x \<Rightarrow> x | Inl err \<Rightarrow> capacity rtb);
          (reply2, r2) = Get r1 (redisKey @ '':last_updated'');
          lastUpdated = (case Int64 reply2 of Inr n \<Rightarrow> n | Inl err \<Rightarrow> now);
          elapsed = float64 (now - lastUpdated);
          newTokens = math_Min (capacity rtb) (f64_add tokens (f64_mul elapsed (refillRate rtb)))
      in if f64_ge newTokens (Fin 1) then
           (let pipe = [SET (redisKey @ '':tokens'') (float_arg (f64_sub newTokens (Fin 1))) (ttl rtb),
                        SET (redisKey @ '':last_updated'') (int_arg now) (ttl rtb)];
                (err, r3) = Exec r2 pipe
            in case err of
                 Some e \<Rightarrow> (False, [ErrorUpdatingRedis e], r3)
               | None \<Rightarrow> (True, [], r3))
         else (False, [RequestRejected ip newTokens], r2))"

text \<open>
  \<open>RateLimitMiddleware\<close> of \<open>main.go\<close>, the caller of \<open>AllowRequest\<close>: what it
  answers for the client address \<open>ip\<close>.
\<close>

datatype response =
    StatusBadRequest
  | StatusTooManyRequests string string
  | StatusTemporaryRedirect string

definition RateLimitMiddleware ::
  "RedisTokenBucket \<Rightarrow> string \<Rightarrow> string \<Rightarrow> int64 \<Rightarrow> redis \<Rightarrow> string
     \<Rightarrow> response \<times> log_line list \<times> redis" where
  "RateLimitMiddleware rateLimiter successURL failureMessage now r ip =
     (if ip = [] then (StatusBadRequest, [UnableToDetermineIP], r)
      else (case AllowRequest rateLimiter now r ip of
              (allowed, logs, r1) \<Rightarrow>
                if \<not> allowed
                then (StatusTooManyRequests failureMessage ip, logs @ [RateLimitExceeded ip], r1)
                else (StatusTemporaryRedirect successURL, logs @ [RequestAllowed ip], r1)))"

text \<open>
  Successive calls for one address at one clock reading, as the repository's tests make
  them: the booleans returned, in order, and the server afterwards.
\<close>

fun calls :: "RedisTokenBucket \<Rightarrow> int64 \<Rightarrow> string \<Rightarrow> nat \<Rightarrow> redis \<Rightarrow> bool list \<times> redis" where
  "calls rtb now ip 0 r = ([], r)"
| "calls rtb now ip (Suc n) r =
     (case AllowRequest rtb now r ip of
        (b, logs, r1) \<Rightarrow> (case calls rtb now ip n r1 of (bs, r2) \<Rightarrow> (b # bs, r2)))"

section \<open>The quantities of the specification\<close>

text \<open>
  The key layout of the specification: \<open>rate_limit:ip:<identifier>:tokens\<close> and
  \<open>rate_limit:ip:<identifier>:last_updated\<close>.
\<close>

definition tokens_key :: "string \<Rightarrow> string" where
  "tokens_key ip = ''rate_limit:ip:'' @ ip @ '':tokens''"

definition last_updated_key :: "string \<Rightarrow> string" where
  "last_updated_key ip = ''rate_limit:ip:'' @ ip @ '':last_updated''"

text \<open>
  What a read of key \<open>k\<close> yields when the round trip carries fault \<open>f\<close>: nothing when
  the read fails or the key is absent, the stored value otherwise.
\<close>

definition read_value :: "fault \<Rightarrow> redis \<Rightarrow> string \<Rightarrow> rvalue option" where
  "read_value f r k = (if f \<noteq> NoFault then None else map_option ent_val (kv r k))"

text \<open>
  Steps 2 and 3 of the specification's algorithm: the token count and the timestamp the
  limiter works with. The first round trip of a call reads the tokens, the second the
  timestamp, the third is the commit.
\<close>

definition seen_tokens :: "RedisTokenBucket \<Rightarrow> redis \<Rightarrow> string \<Rightarrow> f64" where
  "seen_tokens rtb r ip =
     (case read_value (next_fault (faults r)) r (tokens_key ip) of
        None \<Rightarrow> capacity rtb
      | Some v \<Rightarrow> (case as_float v of None \<Rightarrow> capacity rtb | Some x \<Rightarrow> x))"

definition seen_lastUpdated :: "int64 \<Rightarrow> redis \<Rightarrow> string \<Rightarrow> int64" where
  "seen_lastUpdated now r ip =
     (case read_value (next_fault (tl (faults r))) r (last_updated_key ip) of
        None \<Rightarrow> now
      | Some v \<Rightarrow> (case as_int v of None \<Rightarrow> now | Some n \<Rightarrow> n))"

text \<open>
  Step 4: \<open>refilled = min(capacity, tokens + elapsedSeconds * refillRate)\<close> with
  \<open>elapsedSeconds = now - lastUpdated\<close>.
\<close>

definition refill :: "f64 \<Rightarrow> f64 \<Rightarrow> f64 \<Rightarrow> int64 \<Rightarrow> f64" where
  "refill cap rate tokens elapsedSeconds =
     math_Min cap (f64_add tokens (f64_mul (float64 elapsedSeconds) rate))"

definition refilled :: "RedisTokenBucket \<Rightarrow> int64 \<Rightarrow> redis \<Rightarrow> string \<Rightarrow> f64" where
  "refilled rtb now r ip =
     refill (capacity rtb) (refillRate rtb) (seen_tokens rtb r ip)
       (now - seen_lastUpdated now r ip)"

definition commit_fault :: "redis \<Rightarrow> fault" where
  "commit_fault r = next_fault (drop 2 (faults r))"

text \<open>The batch of step 5: the new token count and the new timestamp, each under the TTL.\<close>

definition commit_batch :: "RedisTokenBucket \<Rightarrow> int64 \<Rightarrow> redis \<Rightarrow> string \<Rightarrow> setcmd list" where
  "commit_batch rtb now r ip =
     [SET (tokens_key ip) (float_arg (f64_sub (refilled rtb now r ip) (Fin 1))) (ttl rtb),
      SET (last_updated_key ip) (int_arg now) (ttl rtb)]"

text \<open>
  Steps 4 to 6 as a function of the token count and the timestamp the limiter works
  with: the decision, the line logged and the server afterwards.
\<close>

definition outcome ::
  "RedisTokenBucket \<Rightarrow> int64 \<Rightarrow> redis \<Rightarrow> string \<Rightarrow> f64 \<Rightarrow> int64
     \<Rightarrow> bool \<times> log_line list \<times> redis" where
  "outcome rtb now r ip tokens lastUpdated =
     (let nt = refill (capacity rtb) (refillRate rtb) tokens (now - lastUpdated);
          batch = [SET (tokens_key ip) (float_arg (f64_sub nt (Fin 1))) (ttl rtb),
                   SET (last_updated_key ip) (int_arg now) (ttl rtb)]
      in if f64_ge nt (Fin 1) then
           (commit_fault r = NoFault,
            if commit_fault r = NoFault then [] else [ErrorUpdatingRedis ConnError],
            r\<lparr>faults := drop 3 (faults r),
              history := history r @ [GET (tokens_key ip), GET (last_updated_key ip),
                                      MULTI_EXEC batch],
              kv := if commit_fault r = Dropped then kv r else apply_sets batch (kv r)\<rparr>)
         else
           (False, [RequestRejected ip nt],
            r\<lparr>faults := drop 2 (faults r),
              history := history r @ [GET (tokens_key ip), GET (last_updated_key ip)]\<rparr>))"

text \<open>The stored token value is absent, unreadable or malformed; so for the timestamp.\<close>

definition tokens_missing :: "redis \<Rightarrow> string \<Rightarrow> bool" where
  "tokens_missing r ip =
     (next_fault (faults r) \<noteq> NoFault \<or>
      (case kv r (tokens_key ip) of None \<Rightarrow> True | Some e \<Rightarrow> as_float (ent_val e) = None))"

definition last_updated_missing :: "redis \<Rightarrow> string \<Rightarrow> bool" where
  "last_updated_missing r ip =
     (next_fault (tl (faults r)) \<noteq> NoFault \<or>
      (case kv r (last_updated_key ip) of None \<Rightarrow> True | Some e \<Rightarrow> as_int (ent_val e) = None))"

section \<open>The configurations of the repository's tests\<close>

definition test_client :: redis_client where
  "test_client = Client ''localhost:6379'' 1"

text \<open>\<open>NewRedisTokenBucket(client, 3, 1, 10*time.Second)\<close>\<close>

definition test_limiter :: RedisTokenBucket where
  "test_limiter = \<lparr>client = test_client, capacity = Fin 3, refillRate = Fin 1, ttl = 10000000000\<rparr>"

definition empty_redis :: redis where
  "empty_redis = \<lparr>kv = Map.empty, faults = [], history = []\<rparr>"

text \<open>A server with the bucket of \<open>ip\<close> holding \<open>tokens\<close>, last updated at \<open>t\<close>.\<close>

definition redis_with :: "string \<Rightarrow> f64 \<Rightarrow> int64 \<Rightarrow> redis" where
  "redis_with ip tokens t =
     \<lparr>kv = [tokens_key ip \<mapsto> \<lparr>ent_val = float_arg tokens, ent_ttl = 10000000000\<rparr>,
            last_updated_key ip \<mapsto> \<lparr>ent_val = int_arg t, ent_ttl = 10000000000\<rparr>],
      faults = [], history = []\<rparr>"

text \<open>A limiter of capacity \<open>2^54\<close>, where binary64 values are 4 apart just above.\<close>

definition big_limiter :: RedisTokenBucket where
  "big_limiter =
     \<lparr>client = test_client, capacity = Fin 18014398509481984, refillRate = Fin 1,
      ttl = 10000000000\<rparr>"

text \<open>
  A server where the token value of \<open>ip\<close> is not a number and the second round trip
  (the read of the timestamp) fails.
\<close>

definition malformed_redis :: "string \<Rightarrow> redis" where
  "malformed_redis ip =
     \<lparr>kv = [tokens_key ip \<mapsto> \<lparr>ent_val = \<lparr>as_float = None, as_int = None\<rparr>, ent_ttl = 0\<rparr>],
      faults = [NoFault, Dropped], history = []\<rparr>"

section \<open>Rounding to binary64\<close>

lemma pow2_powi: "pow2 e = power_int 2 e"
  by (simp add: pow2_def power_int_def field_simps)

lemma pow2_pos [simp]: "0 < pow2 e"
  by (simp add: pow2_def)

lemma pow2_add: "pow2 (a + b) = pow2 a * pow2 b"
  by (simp add: pow2_powi power_int_add)

lemma pow2_diff: "pow2 (a - b) = pow2 a / pow2 b"
  by (simp add: pow2_powi power_int_diff)

lemma pow2_mono: "a \<le> b \<Longrightarrow> pow2 a \<le> pow2 b"
  by (simp add: pow2_powi power_int_increasing)

lemma pow2_strict_mono: "a < b \<Longrightarrow> pow2 a < pow2 b"
  by (simp add: pow2_powi power_int_strict_increasing)

lemma pow2_nat: "pow2 (int n) = 2 ^ n"
  by (simp add: pow2_def)

lemma pow2_is_int: "0 \<le> e \<Longrightarrow> pow2 e = of_int (2 ^ nat e)"
  by (simp add: pow2_def)

lemma ilog2_bounds:
  assumes "0 < a"
  shows "pow2 (ilog2 a) \<le> a \<and> a < pow2 (ilog2 a + 1)"
proof (cases "1 \<le> a")
  case True
  define n where "n = \<lfloor>a\<rfloor>"
  have n: "0 < n" using True by (simp add: n_def)
  have b: "2 ^ nat (bitlen n - 1) \<le> n" "n < 2 ^ nat (bitlen n)"
    using bitlen_bounds [OF n] by auto
  have bl: "1 \<le> bitlen n" using n bitlen_eq_zero_iff [of n] bitlen_nonneg [of n] by linarith
  have il: "ilog2 a = bitlen n - 1" using True by (simp add: ilog2_def n_def)
  have "(of_int (2 ^ nat (bitlen n - 1)) :: rat) \<le> of_int n" using b(1) by (simp only: of_int_le_iff)
  also have "\<dots> \<le> a" by (simp add: n_def)
  finally have lo: "pow2 (ilog2 a) \<le> a" using bl by (simp add: il pow2_def)
  have "n + 1 \<le> 2 ^ nat (bitlen n)" using b(2) by simp
  then have "(of_int (n + 1) :: rat) \<le> of_int (2 ^ nat (bitlen n))" by (simp only: of_int_le_iff)
  moreover have "a < of_int (n + 1)" unfolding n_def by linarith
  ultimately have "a < pow2 (ilog2 a + 1)" using bl by (simp add: il pow2_def)
  with lo show ?thesis by simp
next
  case False
  define y where "y = 1 / a"
  define m where "m = \<lceil>y\<rceil> - 1"
  have y: "1 < y" using False assms by (simp add: y_def)
  have m: "0 < m" using y unfolding m_def by linarith
  have b: "2 ^ nat (bitlen m - 1) \<le> m" "m < 2 ^ nat (bitlen m)"
    using bitlen_bounds [OF m] by auto
  have bl: "1 \<le> bitlen m" using m bitlen_eq_zero_iff [of m] bitlen_nonneg [of m] by linarith
  have il: "ilog2 a = - bitlen m" using False by (simp add: ilog2_def m_def y_def)
  have "m + 1 \<le> 2 ^ nat (bitlen m)" using b(2) by simp
  then have "(of_int (m + 1) :: rat) \<le> of_int (2 ^ nat (bitlen m))" by (simp only: of_int_le_iff)
  moreover have "y \<le> of_int (m + 1)" unfolding m_def by linarith
  ultimately have "y \<le> of_int (2 ^ nat (bitlen m))" by (rule order_trans [rotated])
  then have "y \<le> 2 ^ nat (bitlen m)" by simp
  then have lo: "pow2 (ilog2 a) \<le> a"
    using assms bl by (simp add: il pow2_def y_def field_simps)
  have "(of_int (2 ^ nat (bitlen m - 1)) :: rat) \<le> of_int m" using b(1) by (simp only: of_int_le_iff)
  moreover have "of_int m < y" unfolding m_def by linarith
  ultimately have "(of_int (2 ^ nat (bitlen m - 1)) :: rat) < y" by (rule le_less_trans)
  then have yl: "2 ^ nat (bitlen m - 1) < y" by simp
  have "a < pow2 (ilog2 a + 1)"
  proof (cases "bitlen m = 1")
    case True
    then show ?thesis using yl assms by (simp add: il pow2_def y_def field_simps)
  next
    case False
    then have "nat (bitlen m - 1) = nat (- (1 - bitlen m))" "\<not> 0 \<le> - bitlen m + 1" using bl by auto
    then show ?thesis using yl assms by (simp add: il pow2_def y_def field_simps)
  qed
  with lo show ?thesis by simp
qed

lemma ilog2_unique:
  assumes "0 < a" "pow2 k \<le> a" "a < pow2 (k + 1)"
  shows "ilog2 a = k"
proof (rule ccontr)
  assume ne: "ilog2 a \<noteq> k"
  note b = ilog2_bounds [OF assms(1)]
  show False
  proof (cases "ilog2 a < k")
    case True
    then have "pow2 (ilog2 a + 1) \<le> pow2 k" by (intro pow2_mono) simp
    with b assms show False by linarith
  next
    case False
    with ne have "pow2 (k + 1) \<le> pow2 (ilog2 a)" by (intro pow2_mono) simp
    with b assms show False by linarith
  qed
qed

lemma ilog2_mono:
  assumes "0 < a" "a \<le> b"
  shows "ilog2 a \<le> ilog2 b"
proof (rule ccontr)
  assume "\<not> ilog2 a \<le> ilog2 b"
  then have "pow2 (ilog2 b + 1) \<le> pow2 (ilog2 a)" by (intro pow2_mono) simp
  moreover have "0 < b" using assms by simp
  ultimately show False using ilog2_bounds [OF assms(1)] ilog2_bounds [OF \<open>0 < b\<close>] assms(2) by linarith
qed

lemma round_even_of_int [simp]: "round_even (of_int j) = j"
  by (simp add: round_even_def)

lemma round_even_le: "x \<le> of_int j \<Longrightarrow> round_even x \<le> j"
  unfolding round_even_def Let_def
  by (auto simp: not_less) linarith+

lemma round_even_nonneg: "0 \<le> x \<Longrightarrow> 0 \<le> round_even x"
  by (simp add: round_even_def Let_def)


lemma ulp_pos [simp]: "0 < ulp a"
  by (simp add: ulp_def)

lemma ulp_neq0 [simp]: "ulp a \<noteq> 0"
  by (metis ulp_pos less_irrefl)

lemma ulp_nonneg [simp]: "0 \<le> ulp a"
  using ulp_pos [of a] by (rule less_imp_le)

lemma rnd_pos_eq:
  "0 < q \<Longrightarrow> rnd q =
     (if pow2 1024 \<le> of_int (round_even (q / ulp q)) * ulp q then PInf
      else Fin (of_int (round_even (q / ulp q)) * ulp q))"
  by (simp add: rnd_def ulp_def Let_def)

lemma rnd_le_multiple:
  assumes "0 < q" "q \<le> x" "x / ulp q = of_int j" "x < pow2 1024"
  shows "\<exists>r. rnd q = Fin r \<and> 0 \<le> r \<and> r \<le> x"
proof -
  let ?m = "round_even (q / ulp q)"
  have "q / ulp q \<le> x / ulp q" using assms(2) by (rule divide_right_mono) simp
  then have "?m \<le> j" using assms(3) by (simp add: round_even_le)
  then have "(of_int ?m :: rat) \<le> of_int j" by (simp only: of_int_le_iff)
  then have "of_int ?m * ulp q \<le> of_int j * ulp q" by (simp add: mult_right_mono)
  also have "of_int j * ulp q = x" using assms(3) [symmetric] by simp
  finally have le: "of_int ?m * ulp q \<le> x" .
  have "0 \<le> q / ulp q" using assms(1) by simp
  then have "0 \<le> ?m" by (rule round_even_nonneg)
  then have "0 \<le> of_int ?m * ulp q" by simp
  with le assms(1,4) show ?thesis by (simp add: rnd_pos_eq)
qed

lemma rnd_exact:
  assumes "0 < a" "a / ulp a = of_int j" "a < pow2 1024"
  shows "rnd a = Fin a"
proof -
  have "of_int j * ulp a = a" using assms(2) [symmetric] by simp
  then show ?thesis using assms by (simp add: rnd_pos_eq)
qed

lemma ulp_mono_multiple:
  assumes "0 < q" "q \<le> c"
  shows "\<exists>k. ulp c = of_int (2 ^ k) * ulp q"
proof -
  let ?eq = "max (ilog2 q) (- 1022)" and ?ec = "max (ilog2 c) (- 1022)"
  have "?eq \<le> ?ec" using ilog2_mono [OF assms] by simp
  then have "pow2 (?ec - 52) = pow2 (?ec - ?eq) * pow2 (?eq - 52)" "0 \<le> ?ec - ?eq"
    by (simp_all flip: pow2_add)
  then have "ulp c = of_int (2 ^ nat (?ec - ?eq)) * ulp q"
    by (simp add: ulp_def pow2_is_int)
  then show ?thesis ..
qed

lemma repr_multiple:
  assumes "rnd c = Fin c" "0 < q" "q \<le> c"
  shows "\<exists>j. c / ulp q = of_int j"
proof -
  have c: "0 < c" using assms by simp
  let ?n = "round_even (c / ulp c)"
  have cn: "c = of_int ?n * ulp c"
    using assms(1) c by (simp add: rnd_pos_eq split: if_splits)
  obtain k where "ulp c = of_int (2 ^ k) * ulp q"
    using ulp_mono_multiple [OF assms(2,3)] by blast
  then have "c = of_int (?n * 2 ^ k) * ulp q" using cn by simp
  then have "c / ulp q = of_int (?n * 2 ^ k) * ulp q / ulp q" by simp
  then have "c / ulp q = of_int (?n * 2 ^ k)" by simp
  then show ?thesis ..
qed

lemma repr_lt_max:
  assumes "rnd c = Fin c" "0 < c"
  shows "c < pow2 1024"
  using assms by (simp add: rnd_pos_eq split: if_splits)

lemma rnd_le_repr:
  assumes "rnd c = Fin c" "0 < q" "q \<le> c"
  shows "\<exists>r. rnd q = Fin r \<and> 0 \<le> r \<and> r \<le> c"
proof -
  obtain j where "c / ulp q = of_int j" using repr_multiple [OF assms] by blast
  moreover have "c < pow2 1024" using repr_lt_max assms by simp
  ultimately show ?thesis using assms by (intro rnd_le_multiple)
qed

lemma ulp_small:
  assumes "0 < q" "q < 2 ^ 53"
  shows "\<exists>k. 1 / ulp q = of_int (2 ^ k)"
proof -
  have "ilog2 q \<le> 52"
  proof (rule ccontr)
    assume "\<not> ilog2 q \<le> 52"
    then have "pow2 53 \<le> pow2 (ilog2 q)" by (intro pow2_mono) simp
    then show False using ilog2_bounds [OF assms(1)] assms(2) by (simp add: pow2_def)
  qed
  then have "0 \<le> 52 - max (ilog2 q) (- 1022)" by simp
  moreover have "1 / ulp q = pow2 (52 - max (ilog2 q) (- 1022))"
    by (simp add: ulp_def pow2_diff [of 0, simplified pow2_def, simplified] pow2_diff)
  ultimately have "1 / ulp q = of_int (2 ^ nat (52 - max (ilog2 q) (- 1022)))"
    by (simp add: pow2_is_int)
  then show ?thesis ..
qed

lemma rnd_pred_lt_repr:
  assumes "rnd c = Fin c" "0 < q" "q \<le> c - 1" "c \<le> 2 ^ 53"
  shows "\<exists>r. rnd q = Fin r \<and> 0 \<le> r \<and> r < c"
proof -
  have qc: "q \<le> c" using assms(3) by simp
  obtain j where j: "c / ulp q = of_int j" using repr_multiple [OF assms(1,2) qc] by blast
  have "q < 2 ^ 53" using assms(3,4) by simp
  then obtain k where k: "1 / ulp q = of_int (2 ^ k)" using ulp_small [OF assms(2)] by blast
  have "(c - 1) / ulp q = c / ulp q - 1 / ulp q" by (simp add: diff_divide_distrib)
  also have "\<dots> = of_int (j - 2 ^ k)" using j k by simp
  finally have "(c - 1) / ulp q = of_int (j - 2 ^ k)" .
  moreover have "c - 1 < pow2 1024" using repr_lt_max [OF assms(1)] assms(2,3) by simp
  ultimately obtain r where "rnd q = Fin r" "0 \<le> r" "r \<le> c - 1"
    using rnd_le_multiple [OF assms(2,3)] by blast
  then show ?thesis by (intro exI [of _ r]) simp
qed

lemma rnd_0 [simp]: "rnd 0 = Fin 0"
  by (simp add: rnd_def)

lemma ilog2_1: "ilog2 1 = 0"
  by (rule ilog2_unique) (simp_all add: pow2_def)

lemma rnd_of_nat:
  assumes "n \<le> 2 ^ 53"
  shows "rnd (of_nat n) = Fin (of_nat n)"
proof (cases "n = 0")
  case True
  then show ?thesis by simp
next
  case False
  let ?a = "of_nat n :: rat"
  have a: "0 < ?a" "1 \<le> ?a" using False by simp_all
  have up: "?a \<le> 2 ^ 53" using assms by (metis of_nat_le_iff of_nat_numeral of_nat_power)
  have lo: "0 \<le> ilog2 ?a" using ilog2_mono [of 1 ?a] a by (simp add: ilog2_1)
  have hi: "ilog2 ?a \<le> 53"
  proof (rule ccontr)
    assume "\<not> ilog2 ?a \<le> 53"
    then have "pow2 54 \<le> pow2 (ilog2 ?a)" by (intro pow2_mono) simp
    then show False using ilog2_bounds [OF a(1)] up by (simp add: pow2_def)
  qed
  have lt: "?a < pow2 1024"
  proof -
    have "(2::rat) ^ 53 < 2 ^ 1024" by (rule power_strict_increasing) simp_all
    then show ?thesis using up by (simp add: pow2_def)
  qed
  have "\<exists>j. ?a / ulp ?a = of_int j"
  proof (cases "ilog2 ?a = 53")
    case True
    then have "pow2 53 \<le> ?a" using ilog2_bounds [OF a(1)] by simp
    then have "?a = 2 ^ 53" using up by (simp add: pow2_def)
    moreover have "ulp ?a = 2" using True by (simp add: ulp_def pow2_def)
    ultimately have "?a / ulp ?a = of_int (2 ^ 52)" by simp
    then show ?thesis ..
  next
    case False
    then have "0 \<le> 52 - ilog2 ?a" using hi by simp
    moreover have "1 / ulp ?a = pow2 (52 - ilog2 ?a)"
      using lo pow2_diff [of 0 "ilog2 ?a - 52"] by (simp add: ulp_def max_def pow2_def [of 0])
    ultimately have "1 / ulp ?a = of_int (2 ^ nat (52 - ilog2 ?a))" by (simp add: pow2_is_int)
    moreover have "?a / ulp ?a = ?a * (1 / ulp ?a)" by simp
    ultimately have "?a / ulp ?a = of_int (int n * 2 ^ nat (52 - ilog2 ?a))"
      by (simp only: of_int_mult of_int_of_nat_eq)
    then show ?thesis ..
  qed
  then show ?thesis using rnd_exact [OF a(1) _ lt] by blast
qed

section \<open>The client calls and the shape of a call\<close>

lemma Get_eq:
  "Get r k =
     (case read_value (next_fault (faults r)) r k of
        None \<Rightarrow> Inl (if next_fault (faults r) \<noteq> NoFault then ConnError else RedisNil)
      | Some v \<Rightarrow> Inr v,
      r\<lparr>faults := tl (faults r), history := history r @ [GET k]\<rparr>)"
  by (simp add: Get_def round_trip_def read_value_def split: option.splits)

lemma Float64_default:
  "(case Float64 (case vo of None \<Rightarrow> Inl e | Some v \<Rightarrow> Inr v) of Inr x \<Rightarrow> x | Inl err \<Rightarrow> d) =
     (case vo of None \<Rightarrow> d | Some v \<Rightarrow> (case as_float v of None \<Rightarrow> d | Some x \<Rightarrow> x))"
  by (simp add: Float64_def split: option.splits)

lemma Int64_default:
  "(case Int64 (case vo of None \<Rightarrow> Inl e | Some v \<Rightarrow> Inr v) of Inr x \<Rightarrow> x | Inl err \<Rightarrow> d) =
     (case vo of None \<Rightarrow> d | Some v \<Rightarrow> (case as_int v of None \<Rightarrow> d | Some x \<Rightarrow> x))"
  by (simp add: Int64_def split: option.splits)

lemma Exec_eq:
  "Exec r pipe =
     (if next_fault (faults r) = NoFault then None else Some ConnError,
      r\<lparr>faults := tl (faults r), history := history r @ [MULTI_EXEC pipe],
        kv := if next_fault (faults r) = Dropped then kv r else apply_sets pipe (kv r)\<rparr>)"
  by (cases "next_fault (faults r)") (simp_all add: Exec_def round_trip_def)

lemma AllowRequest_unfold:
  "AllowRequest rtb now r ip =
     (if f64_ge (refilled rtb now r ip) (Fin 1) then
        (commit_fault r = NoFault,
         if commit_fault r = NoFault then [] else [ErrorUpdatingRedis ConnError],
         r\<lparr>faults := drop 3 (faults r),
           history := history r @ [GET (tokens_key ip), GET (last_updated_key ip),
                                   MULTI_EXEC (commit_batch rtb now r ip)],
           kv := if commit_fault r = Dropped then kv r
                 else apply_sets (commit_batch rtb now r ip) (kv r)\<rparr>)
      else
        (False, [RequestRejected ip (refilled rtb now r ip)],
         r\<lparr>faults := drop 2 (faults r),
           history := history r @ [GET (tokens_key ip), GET (last_updated_key ip)]\<rparr>))"
  by (simp add: AllowRequest_def Get_eq Exec_eq Float64_default Int64_default Let_def
      getIPKey_def tokens_key_def last_updated_key_def refilled_def refill_def
      seen_tokens_def seen_lastUpdated_def commit_fault_def commit_batch_def
      read_value_def drop_Suc tl_drop numeral_3_eq_3 numeral_2_eq_2
      del: apply_sets.simps)

section \<open>Arithmetic on binary64 values\<close>

lemma rnd_numeral:
  "numeral k \<le> (2 ^ 53 :: nat) \<Longrightarrow> rnd (numeral k) = Fin (numeral k)"
  using rnd_of_nat [of "numeral k"] by simp

lemma rnd_minus: "rnd (- q) = f64_neg (rnd q)"
  by (simp add: rnd_def Let_def)

lemma float64_0 [simp]: "float64 0 = Fin 0"
  by (simp add: float64_def)

lemma f64_sub_Fin: "f64_sub (Fin a) (Fin b) = rnd (a - b)"
  by (simp add: f64_sub_def)

lemma math_Min_Fin: "math_Min (Fin a) (Fin b) = Fin (min a b)"
  by (simp add: math_Min_def min_def)

lemma math_Min_ge:
  "f64_ge (math_Min c x) y \<Longrightarrow> y \<noteq> NInf \<Longrightarrow> f64_ge c y \<and> f64_ge c (math_Min c x)"
  by (cases c; cases x; cases y) (auto simp: math_Min_def split: if_splits)

lemma f64_lt_not_ge: "f64_lt x y \<Longrightarrow> \<not> f64_ge x y"
  by (cases x; cases y) auto

lemma rnd_nonneg: "0 \<le> a \<Longrightarrow> rnd a = PInf \<or> (\<exists>r. rnd a = Fin r \<and> 0 \<le> r)"
proof (cases "a = 0")
  case True
  then show ?thesis by simp
next
  case False
  assume "0 \<le> a"
  with False have a: "0 < a" by simp
  then have "0 \<le> a / ulp a" by simp
  then have "0 \<le> round_even (a / ulp a)" by (rule round_even_nonneg)
  then have "0 \<le> of_int (round_even (a / ulp a)) * ulp a" by simp
  then show ?thesis using a by (simp add: rnd_pos_eq)
qed

text \<open>
  Subtracting one from a value \<open>q \<ge> 1\<close> that does not exceed a binary64 value \<open>cap\<close>:
  the rounded difference is not negative and does not exceed \<open>cap\<close>; it stays below
  \<open>cap\<close> as long as \<open>cap \<le> 2^53\<close>, where the binary64 values are at most 1 apart.
\<close>

lemma sub_one_bounds:
  assumes "1 \<le> q" "f64_ge cap (Fin q)" "is_f64 cap"
  shows "f64_ge (rnd (q - 1)) (Fin 0) \<and> f64_ge cap (rnd (q - 1)) \<and>
         (f64_ge (Fin (2 ^ 53)) cap \<longrightarrow> f64_lt (rnd (q - 1)) cap)"
proof (cases cap)
  case NaN
  with assms show ?thesis by simp
next
  case NInf
  with assms show ?thesis by simp
next
  case PInf
  have "0 \<le> q - 1" using assms(1) by simp
  from rnd_nonneg [OF this] PInf show ?thesis by auto
next
  case (Fin c)
  then have c: "q \<le> c" "rnd c = Fin c" using assms by (simp_all add: is_f64_def)
  show ?thesis
  proof (cases "q = 1")
    case True
    then show ?thesis using Fin c by simp
  next
    case False
    then have q: "0 < q - 1" "q - 1 \<le> c" "q - 1 \<le> c - 1" using assms(1) c(1) by simp_all
    obtain r where r: "rnd (q - 1) = Fin r" "0 \<le> r" "r \<le> c"
      using rnd_le_repr [OF c(2) q(1,2)] by blast
    have "r < c" if "c \<le> 2 ^ 53"
      using rnd_pred_lt_repr [OF c(2) q(1,3) that] r(1) by auto
    then show ?thesis using r Fin by simp
  qed
qed

text \<open>At \<open>2^54\<close> the binary64 values are 4 apart, and \<open>2^54 - 1\<close> rounds back up.\<close>

lemma ilog2_2_54: "ilog2 18014398509481984 = 54"
  by (rule ilog2_unique) (simp_all add: pow2_def)

lemma ilog2_2_54_pred: "ilog2 18014398509481983 = 53"
  by (rule ilog2_unique) (simp_all add: pow2_def)

lemma rnd_2_54: "rnd 18014398509481984 = Fin 18014398509481984"
  by (simp add: rnd_pos_eq ulp_def ilog2_2_54 pow2_def round_even_def)

lemma floor_2_54_pred_half: "\<lfloor>18014398509481983 / 2 :: rat\<rfloor> = 9007199254740991"
  by (rule floor_unique) simp_all

lemma rnd_2_54_pred: "rnd 18014398509481983 = Fin 18014398509481984"
  by (simp add: rnd_pos_eq ulp_def ilog2_2_54_pred pow2_def round_even_def Let_def
      floor_2_54_pred_half)

section \<open>Facts about a call\<close>

lemma AllowRequest_outcome:
  "AllowRequest rtb now r ip =
     outcome rtb now r ip (seen_tokens rtb r ip) (seen_lastUpdated now r ip)"
  by (simp add: AllowRequest_unfold outcome_def commit_batch_def refilled_def Let_def
      del: apply_sets.simps)

lemma seen_tokens_missing:
  "tokens_missing r ip \<Longrightarrow> seen_tokens rtb r ip = capacity rtb"
  by (auto simp: tokens_missing_def seen_tokens_def read_value_def split: option.splits)

lemma seen_lastUpdated_missing:
  "last_updated_missing r ip \<Longrightarrow> seen_lastUpdated now r ip = now"
  by (auto simp: last_updated_missing_def seen_lastUpdated_def read_value_def split: option.splits)

lemma keys_distinct [simp]:
  "tokens_key ip \<noteq> last_updated_key ip" "last_updated_key ip \<noteq> tokens_key ip"
  by (simp_all add: tokens_key_def last_updated_key_def)

lemma apply_commit_batch:
  "apply_sets (commit_batch rtb now r ip) m =
     m(tokens_key ip \<mapsto>
         \<lparr>ent_val = float_arg (f64_sub (refilled rtb now r ip) (Fin 1)), ent_ttl = ttl rtb\<rparr>,
       last_updated_key ip \<mapsto> \<lparr>ent_val = int_arg now, ent_ttl = ttl rtb\<rparr>)"
  by (simp add: commit_batch_def)

lemma seen_absent:
  assumes "faults r = []" "kv r (tokens_key ip) = None" "kv r (last_updated_key ip) = None"
  shows "seen_tokens rtb r ip = capacity rtb" "seen_lastUpdated now r ip = now"
  using assms by (simp_all add: seen_tokens_def seen_lastUpdated_def read_value_def)

lemma seen_after_commit:
  assumes "r' = r\<lparr>faults := [], history := h,
                   kv := (kv r)(tokens_key ip \<mapsto> \<lparr>ent_val = float_arg x, ent_ttl = t\<rparr>,
                                last_updated_key ip \<mapsto> \<lparr>ent_val = int_arg now, ent_ttl = t\<rparr>)\<rparr>"
  shows "seen_tokens rtb r' ip = x" "seen_lastUpdated now' r' ip = now"
  using assms
  by (simp_all add: seen_tokens_def seen_lastUpdated_def read_value_def next_fault_def
      float_arg_def int_arg_def)

lemma below_one_denied:
  assumes "f64_lt (capacity rtb) (Fin 1)"
  shows "\<not> f64_ge (refilled rtb now r ip) (Fin 1)"
proof
  assume "f64_ge (refilled rtb now r ip) (Fin 1)"
  then have "f64_ge (capacity rtb) (Fin 1)"
    unfolding refilled_def refill_def by (rule math_Min_ge [THEN conjunct1]) simp
  with assms show False by (simp add: f64_lt_not_ge)
qed

lemma Middleware_denied:
  "ip \<noteq> [] \<Longrightarrow> \<not> fst (AllowRequest rtb now r ip) \<Longrightarrow>
   fst (RateLimitMiddleware rtb url msg now r ip) = StatusTooManyRequests msg ip"
  by (cases "AllowRequest rtb now r ip") (simp add: RateLimitMiddleware_def)

text \<open>
  Successive calls within one second on a healthy server: a bucket of \<open>k\<close> tokens, \<open>k\<close>
  a whole number up to the capacity, grants \<open>k\<close> calls and refuses the next.
\<close>

lemma refill_same_second:
  assumes "n \<le> 2 ^ 53"
  shows "refill cap (Fin rate) (Fin (of_nat n)) (now - now) = math_Min cap (Fin (of_nat n))"
  using rnd_of_nat [OF assms] by (simp add: refill_def)

lemma fst_calls_Suc:
  "fst (calls rtb now ip (Suc n) r) =
     fst (AllowRequest rtb now r ip) #
     fst (calls rtb now ip n (snd (snd (AllowRequest rtb now r ip))))"
  by (simp split: prod.splits)

lemma drain:
  assumes "capacity rtb = Fin (of_nat C)" "refillRate rtb = Fin rate" "C \<le> 2 ^ 53"
  shows "k \<le> C \<Longrightarrow> faults r = [] \<Longrightarrow> seen_tokens rtb r ip = Fin (of_nat k) \<Longrightarrow>
         seen_lastUpdated now r ip = now \<Longrightarrow>
         fst (calls rtb now ip (Suc k) r) = replicate k True @ [False]"
proof (induction k arbitrary: r)
  case 0
  then have "refilled rtb now r ip = Fin 0"
    using refill_same_second [of 0 "Fin (of_nat C)" rate now] assms
    by (simp add: refilled_def math_Min_Fin)
  then show ?case by (simp add: fst_calls_Suc AllowRequest_unfold)
next
  case (Suc k)
  have k: "Suc k \<le> 2 ^ 53" "k \<le> 2 ^ 53" using Suc.prems(1) assms(3) by simp_all
  have n: "refilled rtb now r ip = Fin (of_nat (Suc k))"
    using refill_same_second [OF k(1), of "Fin (of_nat C)" rate now] assms Suc.prems
    by (simp add: refilled_def math_Min_Fin min_def)
  have w: "f64_sub (Fin (1 + of_nat k)) (Fin 1) = Fin (of_nat k)"
    using rnd_of_nat [OF k(2)] by (simp add: f64_sub_Fin)
  have cf: "commit_fault r = NoFault"
    using Suc.prems(2) by (simp add: commit_fault_def next_fault_def)
  define r' where "r' = snd (snd (AllowRequest rtb now r ip))"
  have r': "r' = r\<lparr>faults := [], 
      history := history r @ [GET (tokens_key ip), GET (last_updated_key ip),
                              MULTI_EXEC (commit_batch rtb now r ip)],
      kv := (kv r)(tokens_key ip \<mapsto> \<lparr>ent_val = float_arg (Fin (of_nat k)), ent_ttl = ttl rtb\<rparr>,
                   last_updated_key ip \<mapsto> \<lparr>ent_val = int_arg now, ent_ttl = ttl rtb\<rparr>)\<rparr>"
    using Suc.prems(2) by (simp add: r'_def AllowRequest_unfold n cf apply_commit_batch w)
  have A: "fst (AllowRequest rtb now r ip)"
    by (simp add: AllowRequest_unfold n cf)
  have "fst (calls rtb now ip (Suc k) r') = replicate k True @ [False]"
  proof (rule Suc.IH)
    show "k \<le> C" using Suc.prems(1) by simp
    show "faults r' = []" by (simp add: r')
    show "seen_tokens rtb r' ip = Fin (of_nat k)" by (rule seen_after_commit(1) [OF r'])
    show "seen_lastUpdated now r' ip = now" by (rule seen_after_commit(2) [OF r'])
  qed
  then show ?case using A by (simp only: fst_calls_Suc [of _ _ _ _ r] r'_def [symmetric]) simp
qed

text \<open>A bucket of \<open>2^54\<close> tokens never drains: \<open>2^54 - 1\<close> is stored as \<open>2^54\<close>.\<close>

lemma big_never_drains:
  "faults r = [] \<Longrightarrow> seen_tokens big_limiter r ip = Fin 18014398509481984 \<Longrightarrow>
   seen_lastUpdated now r ip = now \<Longrightarrow>
   fst (calls big_limiter now ip n r) = replicate n True"
proof (induction n arbitrary: r)
  case 0
  then show ?case by simp
next
  case (Suc n)
  have n: "refilled big_limiter now r ip = Fin 18014398509481984"
    using Suc.prems by (simp add: refilled_def refill_def big_limiter_def math_Min_def rnd_2_54)
  have w: "f64_sub (Fin 18014398509481984) (Fin 1) = Fin 18014398509481984"
    by (simp add: f64_sub_Fin rnd_2_54_pred)
  have cf: "commit_fault r = NoFault"
    using Suc.prems(1) by (simp add: commit_fault_def next_fault_def)
  define r' where "r' = snd (snd (AllowRequest big_limiter now r ip))"
  have r': "r' = r\<lparr>faults := [], 
      history := history r @ [GET (tokens_key ip), GET (last_updated_key ip),
                              MULTI_EXEC (commit_batch big_limiter now r ip)],
      kv := (kv r)(tokens_key ip \<mapsto>
                     \<lparr>ent_val = float_arg (Fin 18014398509481984), ent_ttl = ttl big_limiter\<rparr>,
                   last_updated_key ip \<mapsto> \<lparr>ent_val = int_arg now, ent_ttl = ttl big_limiter\<rparr>)\<rparr>"
    using Suc.prems(1) by (simp add: r'_def AllowRequest_unfold n cf apply_commit_batch w)
  have A: "fst (AllowRequest big_limiter now r ip)"
    by (simp add: AllowRequest_unfold n cf)
  have "fst (calls big_limiter now ip n r') = replicate n True"
  proof (rule Suc.IH)
    show "faults r' = []" by (simp add: r')
    show "seen_tokens big_limiter r' ip = Fin 18014398509481984"
      by (rule seen_after_commit(1) [OF r'])
    show "seen_lastUpdated now r' ip = now" by (rule seen_after_commit(2) [OF r'])
  qed
  then show ?case using A by (simp only: fst_calls_Suc [of _ _ _ _ r] r'_def [symmetric]) simp
qed

section \<open>The test configurations, evaluated\<close>

lemma seen_fresh [simp]:
  "seen_tokens rtb (empty_redis\<lparr>faults := fs\<rparr>) ip = capacity rtb"
  "seen_lastUpdated now (empty_redis\<lparr>faults := fs\<rparr>) ip = now"
  "seen_tokens rtb empty_redis ip = capacity rtb"
  "seen_lastUpdated now empty_redis ip = now"
  by (simp_all add: seen_tokens_def seen_lastUpdated_def read_value_def empty_redis_def)

lemma seen_redis_with [simp]:
  "seen_tokens rtb (redis_with ip x t) ip = x"
  "seen_lastUpdated now (redis_with ip x t) ip = t"
  by (simp_all add: seen_tokens_def seen_lastUpdated_def read_value_def redis_with_def
      next_fault_def float_arg_def int_arg_def)

lemma commit_fault_fresh [simp]: "commit_fault empty_redis = NoFault"
  by (simp add: commit_fault_def next_fault_def empty_redis_def)

lemma commit_fault_simps [simp]:
  "commit_fault (r\<lparr>faults := [f1, f2, f3]\<rparr>) = f3"
  "commit_fault (redis_with ip x t) = NoFault"
  by (simp_all add: commit_fault_def next_fault_def redis_with_def)

lemma test_limiter_ttl [simp]: "ttl test_limiter = 10000000000"
  by (simp add: test_limiter_def)

lemma test_limiter_capacity [simp]: "capacity test_limiter = Fin 3"
  by (simp add: test_limiter_def)

lemma empty_redis_simps [simp]: "history empty_redis = []" "kv empty_redis = Map.empty"
  by (simp_all add: empty_redis_def)

lemma refilled_test_fresh:
  "refilled test_limiter now (empty_redis\<lparr>faults := fs\<rparr>) ip = Fin 3"
  "refilled test_limiter now empty_redis ip = Fin 3"
  by (simp_all add: refilled_def refill_def seen_tokens_def seen_lastUpdated_def read_value_def
      empty_redis_def test_limiter_def math_Min_def rnd_numeral)

lemma refilled_test_drained:
  "refilled test_limiter 1000 (redis_with ip (Fin 0) 1000) ip = Fin 0"
  by (simp add: refilled_def refill_def test_limiter_def math_Min_def)

lemma refilled_test_clock_backward:
  "refilled test_limiter 1000 (redis_with ip (Fin 3) 1005) ip = Fin (- 2)"
  by (simp add: refilled_def refill_def test_limiter_def math_Min_def float64_def
      rnd_minus rnd_numeral)

lemma refilled_big_fresh:
  "refilled big_limiter 1000 empty_redis ip = Fin 18014398509481984"
  by (simp add: refilled_def refill_def big_limiter_def math_Min_def rnd_2_54)

lemma sub_3_1: "f64_sub (Fin 3) (Fin 1) = Fin 2"
  by (simp add: f64_sub_Fin rnd_numeral)

lemma is_f64_3: "is_f64 (Fin 3)"
  by (simp add: is_f64_def rnd_numeral)

lemma malformed_missing:
  "tokens_missing (malformed_redis ip) ip" "last_updated_missing (malformed_redis ip) ip"
  by (simp_all add: tokens_missing_def last_updated_missing_def malformed_redis_def
      next_fault_def)

lemma empty_missing:
  "tokens_missing empty_redis ip" "last_updated_missing empty_redis ip"
  by (simp_all add: tokens_missing_def last_updated_missing_def empty_redis_def)

section \<open>The claims\<close>

subsection \<open>C1: the decision\<close>

text \<open>
  C1, as amended. For every identifier and every state of the store, \<open>AllowRequest\<close>
  returns true if and only if \<open>refilled >= 1\<close> and the atomic commit succeeds, where
  \<open>refilled = min(capacity, tokens + elapsedSeconds * refillRate)\<close> and
  \<open>elapsedSeconds = now - lastUpdated\<close> in \<open>int64\<close> seconds. The formula has no case for
  a negative \<open>elapsedSeconds\<close>: it enters \<open>refilled\<close> as it is.
\<close>

theorem allow_iff_refilled_and_commit:
  "(fst (AllowRequest rtb now r ip) \<longleftrightarrow>
      f64_ge (refilled rtb now r ip) (Fin 1) \<and> commit_fault r = NoFault) \<and>
   refilled rtb now r ip =
     math_Min (capacity rtb)
       (f64_add (seen_tokens rtb r ip)
          (f64_mul (float64 (now - seen_lastUpdated now r ip)) (refillRate rtb)))"
  by (simp add: AllowRequest_unfold refilled_def refill_def)

text \<open>
  With a full bucket stamped 5 seconds in the future, \<open>refilled\<close> is \<open>3 + (-5) * 1 = -2\<close>
  and the request is denied; a fresh bucket on a healthy server is allowed.
\<close>

theorem allow_iff_refilled_and_commit_witness:
  "\<not> fst (AllowRequest test_limiter 1000 (redis_with ''192.168.1.100'' (Fin 3) 1005)
          ''192.168.1.100'') \<and>
   refilled test_limiter 1000 (redis_with ''192.168.1.100'' (Fin 3) 1005) ''192.168.1.100'' =
     Fin (- 2) \<and>
   fst (AllowRequest test_limiter 1000 empty_redis ''192.168.1.100'')"
proof -
  note t1 = allow_iff_refilled_and_commit
              [of test_limiter 1000 "redis_with ''192.168.1.100'' (Fin 3) 1005" "''192.168.1.100''",
               THEN conjunct1]
  note t2 = allow_iff_refilled_and_commit
              [of test_limiter 1000 empty_redis "''192.168.1.100''", THEN conjunct1]
  have "\<not> fst (AllowRequest test_limiter 1000 (redis_with ''192.168.1.100'' (Fin 3) 1005)
          ''192.168.1.100'')"
    unfolding t1 by (simp add: refilled_test_clock_backward)
  moreover have "fst (AllowRequest test_limiter 1000 empty_redis ''192.168.1.100'')"
    unfolding t2 by (simp add: refilled_test_fresh)
  ultimately show ?thesis by (simp add: refilled_test_clock_backward)
qed

text \<open>
  C1 as stated fails where the commit fails: a fresh bucket of capacity 3 has
  \<open>refilled = 3\<close>, and with the third round trip dropped the call returns false.
\<close>

theorem allow_iff_refilled_counterexample:
  "\<not> (fst (AllowRequest test_limiter 1000
             (empty_redis\<lparr>faults := [NoFault, NoFault, Dropped]\<rparr>) ''192.168.1.100'') \<longleftrightarrow>
        f64_ge (refilled test_limiter 1000
             (empty_redis\<lparr>faults := [NoFault, NoFault, Dropped]\<rparr>) ''192.168.1.100'') (Fin 1))"
  by (simp add: AllowRequest_unfold refilled_test_fresh commit_fault_def next_fault_def)

subsection \<open>C2: the commit\<close>

text \<open>
  C2. When \<open>AllowRequest\<close> returns true it has issued, after the two reads, one
  \<open>MULTI\<close>/\<open>EXEC\<close> batch of two \<open>SET\<close> commands, the tokens key with \<open>refilled - 1\<close>
  and the timestamp key with \<open>now\<close>, each with the configured TTL, and the store holds
  both entries. When the commit is attempted and fails, \<open>AllowRequest\<close> returns false.
\<close>

theorem allowed_commits_batch:
  "(fst (AllowRequest rtb now r ip) \<longrightarrow>
      history (snd (snd (AllowRequest rtb now r ip))) =
        history r @
          [GET (tokens_key ip), GET (last_updated_key ip),
           MULTI_EXEC
             [SET (tokens_key ip) (float_arg (f64_sub (refilled rtb now r ip) (Fin 1))) (ttl rtb),
              SET (last_updated_key ip) (int_arg now) (ttl rtb)]] \<and>
      kv (snd (snd (AllowRequest rtb now r ip))) =
        (kv r)(tokens_key ip \<mapsto>
                 \<lparr>ent_val = float_arg (f64_sub (refilled rtb now r ip) (Fin 1)),
                  ent_ttl = ttl rtb\<rparr>,
               last_updated_key ip \<mapsto> \<lparr>ent_val = int_arg now, ent_ttl = ttl rtb\<rparr>)) \<and>
   (f64_ge (refilled rtb now r ip) (Fin 1) \<and> commit_fault r \<noteq> NoFault \<longrightarrow>
      \<not> fst (AllowRequest rtb now r ip))"
  by (simp add: AllowRequest_unfold apply_commit_batch) (simp add: commit_batch_def)

theorem allowed_commits_batch_witness:
  "fst (AllowRequest test_limiter 1000 empty_redis ''192.168.1.100'') \<and>
   history (snd (snd (AllowRequest test_limiter 1000 empty_redis ''192.168.1.100''))) =
     [GET (tokens_key ''192.168.1.100''), GET (last_updated_key ''192.168.1.100''),
      MULTI_EXEC
        [SET (tokens_key ''192.168.1.100'') (float_arg (Fin 2)) 10000000000,
         SET (last_updated_key ''192.168.1.100'') (int_arg 1000) 10000000000]] \<and>
   kv (snd (snd (AllowRequest test_limiter 1000 empty_redis ''192.168.1.100'')))
      (tokens_key ''192.168.1.100'') =
     Some \<lparr>ent_val = float_arg (Fin 2), ent_ttl = 10000000000\<rparr> \<and>
   f64_ge (refilled test_limiter 1000 (empty_redis\<lparr>faults := [NoFault, NoFault, ReplyLost]\<rparr>)
      ''192.168.1.100'') (Fin 1) \<and>
   commit_fault (empty_redis\<lparr>faults := [NoFault, NoFault, ReplyLost]\<rparr>) \<noteq> NoFault \<and>
   \<not> fst (AllowRequest test_limiter 1000 (empty_redis\<lparr>faults := [NoFault, NoFault, ReplyLost]\<rparr>)
          ''192.168.1.100'')"
proof -
  let ?ip = "''192.168.1.100''"
  let ?bad = "empty_redis\<lparr>faults := [NoFault, NoFault, ReplyLost]\<rparr>"
  have a: "fst (AllowRequest test_limiter 1000 empty_redis ?ip)"
    by (simp add: AllowRequest_unfold refilled_test_fresh)
  have b: "f64_ge (refilled test_limiter 1000 ?bad ?ip) (Fin 1) \<and> commit_fault ?bad \<noteq> NoFault"
    by (simp add: refilled_test_fresh)
  note t1 = allowed_commits_batch [of test_limiter 1000 empty_redis ?ip, THEN conjunct1,
      rule_format, OF a]
  note t2 = allowed_commits_batch [of test_limiter 1000 ?bad ?ip, THEN conjunct2,
      rule_format, OF b]
  have "history (snd (snd (AllowRequest test_limiter 1000 empty_redis ?ip))) =
     [GET (tokens_key ?ip), GET (last_updated_key ?ip),
      MULTI_EXEC
        [SET (tokens_key ?ip) (float_arg (Fin 2)) 10000000000,
         SET (last_updated_key ?ip) (int_arg 1000) 10000000000]]"
    using t1 [THEN conjunct1] by (simp add: refilled_test_fresh sub_3_1)
  moreover have "kv (snd (snd (AllowRequest test_limiter 1000 empty_redis ?ip))) (tokens_key ?ip) =
     Some \<lparr>ent_val = float_arg (Fin 2), ent_ttl = 10000000000\<rparr>"
    unfolding t1 [THEN conjunct2] by (simp add: refilled_test_fresh sub_3_1)
  ultimately show ?thesis using a b t2 by simp
qed

subsection \<open>C3: a denied request writes nothing\<close>

text \<open>
  C3. When \<open>refilled >= 1\<close> does not hold (\<open>refilled < 1\<close>, or \<open>refilled\<close> is a NaN),
  \<open>AllowRequest\<close> returns false, issues the two reads and nothing else, and leaves every
  key of the store as it was: the stored token count and the stored timestamp are unchanged.
\<close>

theorem denied_writes_nothing:
  assumes "\<not> f64_ge (refilled rtb now r ip) (Fin 1)"
  shows "\<not> fst (AllowRequest rtb now r ip) \<and>
         kv (snd (snd (AllowRequest rtb now r ip))) = kv r \<and>
         history (snd (snd (AllowRequest rtb now r ip))) =
           history r @ [GET (tokens_key ip), GET (last_updated_key ip)]"
  using assms by (simp add: AllowRequest_unfold)

theorem denied_writes_nothing_witness:
  "\<not> f64_ge (refilled test_limiter 1000 (redis_with ''192.168.1.100'' (Fin 0) 1000)
        ''192.168.1.100'') (Fin 1) \<and>
   \<not> fst (AllowRequest test_limiter 1000 (redis_with ''192.168.1.100'' (Fin 0) 1000)
          ''192.168.1.100'') \<and>
   kv (snd (snd (AllowRequest test_limiter 1000 (redis_with ''192.168.1.100'' (Fin 0) 1000)
                   ''192.168.1.100''))) =
     kv (redis_with ''192.168.1.100'' (Fin 0) 1000)"
proof -
  have h: "\<not> f64_ge (refilled test_limiter 1000 (redis_with ''192.168.1.100'' (Fin 0) 1000)
        ''192.168.1.100'') (Fin 1)"
    by (simp add: refilled_test_drained)
  from h denied_writes_nothing [OF h] show ?thesis by blast
qed

subsection \<open>C4: defaults for failed reads\<close>

text \<open>
  C4. When the stored token value is absent, unreadable or malformed, \<open>AllowRequest\<close>
  does exactly what steps 4 to 6 do with \<open>tokens = capacity\<close>; when the stored timestamp
  is absent, unreadable or malformed, it does exactly what they do with
  \<open>lastUpdated = now\<close>. In both cases the result is a boolean and the server afterwards,
  never an error.
\<close>

theorem read_failures_default:
  "(tokens_missing r ip \<longrightarrow>
      AllowRequest rtb now r ip =
        outcome rtb now r ip (capacity rtb) (seen_lastUpdated now r ip)) \<and>
   (last_updated_missing r ip \<longrightarrow>
      AllowRequest rtb now r ip = outcome rtb now r ip (seen_tokens rtb r ip) now)"
  by (simp add: AllowRequest_outcome seen_tokens_missing seen_lastUpdated_missing)

theorem read_failures_default_witness:
  "tokens_missing empty_redis ''192.168.1.100'' \<and>
   last_updated_missing empty_redis ''192.168.1.100'' \<and>
   AllowRequest test_limiter 1000 empty_redis ''192.168.1.100'' =
     outcome test_limiter 1000 empty_redis ''192.168.1.100'' (Fin 3) 1000 \<and>
   tokens_missing (malformed_redis ''192.168.1.100'') ''192.168.1.100'' \<and>
   last_updated_missing (malformed_redis ''192.168.1.100'') ''192.168.1.100'' \<and>
   AllowRequest test_limiter 1000 (malformed_redis ''192.168.1.100'') ''192.168.1.100'' =
     outcome test_limiter 1000 (malformed_redis ''192.168.1.100'') ''192.168.1.100'' (Fin 3) 1000"
proof -
  let ?ip = "''192.168.1.100''"
  note t1 = read_failures_default [of empty_redis ?ip test_limiter 1000]
  note t2 = read_failures_default [of "malformed_redis ?ip" ?ip test_limiter 1000]
  have "AllowRequest test_limiter 1000 empty_redis ?ip =
          outcome test_limiter 1000 empty_redis ?ip (Fin 3) 1000"
    using t1 [THEN conjunct1, rule_format, OF empty_missing(1)] by simp
  moreover have "AllowRequest test_limiter 1000 (malformed_redis ?ip) ?ip =
          outcome test_limiter 1000 (malformed_redis ?ip) ?ip (Fin 3) 1000"
    using t2 [THEN conjunct1, rule_format, OF malformed_missing(1)]
      seen_lastUpdated_missing [OF malformed_missing(2), of 1000] by simp
  ultimately show ?thesis
    using empty_missing [of ?ip] malformed_missing [of ?ip] by simp
qed

subsection \<open>C5: the token count written\<close>

text \<open>
  C5, as amended. The capacity being a \<open>float64\<close> value, after every successful
  allow-and-commit the token count written is \<open>refilled - 1\<close> computed in \<open>float64\<close>;
  it is not negative and does not exceed the capacity, and it is below the capacity
  whenever the capacity is at most \<open>2^53\<close>.
\<close>

theorem written_tokens_bounds:
  assumes "is_f64 (capacity rtb)" "fst (AllowRequest rtb now r ip)"
  shows "kv (snd (snd (AllowRequest rtb now r ip))) (tokens_key ip) =
           Some \<lparr>ent_val = float_arg (f64_sub (refilled rtb now r ip) (Fin 1)),
                 ent_ttl = ttl rtb\<rparr> \<and>
         f64_ge (f64_sub (refilled rtb now r ip) (Fin 1)) (Fin 0) \<and>
         f64_ge (capacity rtb) (f64_sub (refilled rtb now r ip) (Fin 1)) \<and>
         (f64_ge (Fin (2 ^ 53)) (capacity rtb) \<longrightarrow>
            f64_lt (f64_sub (refilled rtb now r ip) (Fin 1)) (capacity rtb))"
proof -
  let ?n = "refilled rtb now r ip"
  have ok: "f64_ge ?n (Fin 1)" "commit_fault r = NoFault"
    using assms(2) by (simp_all add: AllowRequest_unfold split: if_splits)
  have kv: "kv (snd (snd (AllowRequest rtb now r ip))) (tokens_key ip) =
      Some \<lparr>ent_val = float_arg (f64_sub ?n (Fin 1)), ent_ttl = ttl rtb\<rparr>"
    using ok by (simp add: AllowRequest_unfold apply_commit_batch)
  have le: "f64_ge (capacity rtb) ?n"
    using ok(1) unfolding refilled_def refill_def by (rule math_Min_ge [THEN conjunct2]) simp
  have "f64_ge (f64_sub ?n (Fin 1)) (Fin 0) \<and> f64_ge (capacity rtb) (f64_sub ?n (Fin 1)) \<and>
        (f64_ge (Fin (2 ^ 53)) (capacity rtb) \<longrightarrow> f64_lt (f64_sub ?n (Fin 1)) (capacity rtb))"
  proof (cases ?n)
    case NaN
    with ok show ?thesis by simp
  next
    case NInf
    with ok show ?thesis by simp
  next
    case PInf
    with le have "capacity rtb = PInf" by (cases "capacity rtb") simp_all
    with PInf show ?thesis by (simp add: f64_sub_def)
  next
    case (Fin q)
    with ok le have "1 \<le> q" "f64_ge (capacity rtb) (Fin q)" by simp_all
    from sub_one_bounds [OF this assms(1)] Fin show ?thesis by (simp add: f64_sub_Fin)
  qed
  with kv show ?thesis by simp
qed

theorem written_tokens_bounds_witness:
  "is_f64 (capacity test_limiter) \<and>
   fst (AllowRequest test_limiter 1000 empty_redis ''192.168.1.100'') \<and>
   kv (snd (snd (AllowRequest test_limiter 1000 empty_redis ''192.168.1.100'')))
      (tokens_key ''192.168.1.100'') =
     Some \<lparr>ent_val = float_arg (Fin 2), ent_ttl = 10000000000\<rparr> \<and>
   f64_ge (Fin 2) (Fin 0) \<and> f64_ge (Fin (2 ^ 53)) (capacity test_limiter) \<and>
   f64_lt (Fin 2) (capacity test_limiter)"
proof -
  let ?ip = "''192.168.1.100''"
  have a: "is_f64 (capacity test_limiter)" by (simp add: is_f64_3)
  have b: "fst (AllowRequest test_limiter 1000 empty_redis ?ip)"
    by (simp add: AllowRequest_unfold refilled_test_fresh)
  from written_tokens_bounds [OF a b] a b show ?thesis
    by (simp add: refilled_test_fresh sub_3_1)
qed

text \<open>
  C5 as stated fails at capacity \<open>2^54\<close>: the first request of a fresh identifier is
  allowed and the token count written is \<open>2^54\<close>, the capacity itself.
\<close>

theorem written_tokens_below_capacity_counterexample:
  "fst (AllowRequest big_limiter 1000 empty_redis ''10.0.0.1'') \<and>
   kv (snd (snd (AllowRequest big_limiter 1000 empty_redis ''10.0.0.1'')))
      (tokens_key ''10.0.0.1'') =
     Some \<lparr>ent_val = float_arg (Fin 18014398509481984), ent_ttl = ttl big_limiter\<rparr> \<and>
   \<not> f64_lt (Fin 18014398509481984) (capacity big_limiter)"
  by (simp add: AllowRequest_unfold refilled_big_fresh apply_commit_batch f64_sub_Fin
      rnd_2_54_pred commit_fault_fresh)
     (simp add: big_limiter_def)

subsection \<open>C6: draining a fresh bucket\<close>

text \<open>
  C6, as amended. For every whole-number capacity \<open>C\<close> up to \<open>2^53\<close>, with a finite refill
  rate and a server without faults, of \<open>C + 1\<close> successive calls for a fresh identifier
  within one second the first \<open>C\<close> return true and the last returns false.
\<close>

theorem first_C_calls_allowed:
  assumes "capacity rtb = Fin (of_nat C)" "C \<le> 2 ^ 53" "refillRate rtb = Fin rate"
    and "faults r = []" "kv r (tokens_key ip) = None" "kv r (last_updated_key ip) = None"
  shows "fst (calls rtb now ip (Suc C) r) = replicate C True @ [False]"
proof (rule drain [OF assms(1,3,2) order_refl assms(4)])
  show "seen_tokens rtb r ip = Fin (of_nat C)"
    using seen_absent(1) [OF assms(4-6)] assms(1) by simp
  show "seen_lastUpdated now r ip = now"
    by (rule seen_absent(2) [OF assms(4-6)])
qed

theorem first_C_calls_allowed_witness:
  "capacity test_limiter = Fin (of_nat 3) \<and> (3 :: nat) \<le> 2 ^ 53 \<and>
   refillRate test_limiter = Fin 1 \<and> faults empty_redis = [] \<and>
   kv empty_redis (tokens_key ''192.168.1.100'') = None \<and>
   kv empty_redis (last_updated_key ''192.168.1.100'') = None \<and>
   fst (calls test_limiter 1000 ''192.168.1.100'' (Suc 3) empty_redis) =
     [True, True, True, False]"
proof -
  have h: "capacity test_limiter = Fin (of_nat 3)" "(3 :: nat) \<le> 2 ^ 53"
    "refillRate test_limiter = Fin 1" "faults empty_redis = []"
    "kv empty_redis (tokens_key ''192.168.1.100'') = None"
    "kv empty_redis (last_updated_key ''192.168.1.100'') = None"
    by (simp_all add: test_limiter_def empty_redis_def)
  have "fst (calls test_limiter 1000 ''192.168.1.100'' (Suc 3) empty_redis) =
          replicate 3 True @ [False]"
    by (rule first_C_calls_allowed [OF h])
  then show ?thesis using h by (simp add: numeral_3_eq_3)
qed

text \<open>
  C6 as stated fails at capacity \<open>C = 2^54\<close>: call number \<open>C + 1\<close> (index \<open>C\<close> of
  the list) returns true.
\<close>

theorem first_C_calls_counterexample:
  "capacity big_limiter = Fin (of_nat (2 ^ 54)) \<and>
   fst (calls big_limiter 1000 ''10.0.0.1'' (Suc (2 ^ 54)) empty_redis) ! (2 ^ 54) = True"
proof -
  have "fst (calls big_limiter 1000 ''10.0.0.1'' (Suc (2 ^ 54)) empty_redis) =
        replicate (Suc (2 ^ 54)) True"
    by (rule big_never_drains) (simp_all add: big_limiter_def, simp add: empty_redis_def)
  moreover have "replicate (Suc (2 ^ 54)) True ! (2 ^ 54) = True"
    by (rule nth_replicate) simp
  ultimately show ?thesis by (simp add: big_limiter_def)
qed

subsection \<open>C7: a failed write and a denial\<close>

text \<open>
  C7, as amended. A store write failure during an otherwise allowable call makes
  \<open>AllowRequest\<close> return false, the value it returns for a denied request, and the
  middleware answers both with status 429; only the line logged differs.
\<close>

theorem write_failure_returns_false_like_denied:
  "(f64_ge (refilled rtb now r ip) (Fin 1) \<and> commit_fault r \<noteq> NoFault \<longrightarrow>
      fst (AllowRequest rtb now r ip) = False \<and>
      fst (snd (AllowRequest rtb now r ip)) = [ErrorUpdatingRedis ConnError] \<and>
      (ip \<noteq> [] \<longrightarrow>
         fst (RateLimitMiddleware rtb url msg now r ip) = StatusTooManyRequests msg ip)) \<and>
   (\<not> f64_ge (refilled rtb now r ip) (Fin 1) \<longrightarrow>
      fst (AllowRequest rtb now r ip) = False \<and>
      fst (snd (AllowRequest rtb now r ip)) = [RequestRejected ip (refilled rtb now r ip)] \<and>
      (ip \<noteq> [] \<longrightarrow>
         fst (RateLimitMiddleware rtb url msg now r ip) = StatusTooManyRequests msg ip))"
proof -
  have "\<not> fst (AllowRequest rtb now r ip)"
    if "f64_ge (refilled rtb now r ip) (Fin 1) \<and> commit_fault r \<noteq> NoFault \<or>
        \<not> f64_ge (refilled rtb now r ip) (Fin 1)"
    using that by (auto simp: AllowRequest_unfold)
  then show ?thesis
    by (auto simp: Middleware_denied) (simp_all add: AllowRequest_unfold)
qed

theorem write_failure_returns_false_like_denied_witness:
  "(f64_ge (refilled test_limiter 1000 (empty_redis\<lparr>faults := [NoFault, NoFault, Dropped]\<rparr>)
      ''192.168.1.100'') (Fin 1) \<and>
    commit_fault (empty_redis\<lparr>faults := [NoFault, NoFault, Dropped]\<rparr>) \<noteq> NoFault \<and>
    ''192.168.1.100'' \<noteq> [] \<and>
    fst (AllowRequest test_limiter 1000 (empty_redis\<lparr>faults := [NoFault, NoFault, Dropped]\<rparr>)
      ''192.168.1.100'') = False \<and>
    fst (RateLimitMiddleware test_limiter ''/api'' ''slow down'' 1000
      (empty_redis\<lparr>faults := [NoFault, NoFault, Dropped]\<rparr>) ''192.168.1.100'') =
      StatusTooManyRequests ''slow down'' ''192.168.1.100'') \<and>
   (\<not> f64_ge (refilled test_limiter 1000 (redis_with ''192.168.1.100'' (Fin 0) 1000)
      ''192.168.1.100'') (Fin 1) \<and>
    fst (AllowRequest test_limiter 1000 (redis_with ''192.168.1.100'' (Fin 0) 1000)
      ''192.168.1.100'') = False \<and>
    fst (RateLimitMiddleware test_limiter ''/api'' ''slow down'' 1000
      (redis_with ''192.168.1.100'' (Fin 0) 1000) ''192.168.1.100'') =
      StatusTooManyRequests ''slow down'' ''192.168.1.100'')"
  using write_failure_returns_false_like_denied
          [of test_limiter 1000 "empty_redis\<lparr>faults := [NoFault, NoFault, Dropped]\<rparr>"
              "''192.168.1.100''" "''/api''" "''slow down''"]
        write_failure_returns_false_like_denied
          [of test_limiter 1000 "redis_with ''192.168.1.100'' (Fin 0) 1000"
              "''192.168.1.100''" "''/api''" "''slow down''"]
  by (simp add: refilled_test_fresh refilled_test_drained)

text \<open>
  C7 as stated fails: a call whose commit fails and a call that is denied return the same
  value, and the middleware gives the same response.
\<close>

theorem write_failure_distinct_counterexample:
  "f64_ge (refilled test_limiter 1000 (empty_redis\<lparr>faults := [NoFault, NoFault, Dropped]\<rparr>)
      ''192.168.1.100'') (Fin 1) \<and>
   commit_fault (empty_redis\<lparr>faults := [NoFault, NoFault, Dropped]\<rparr>) \<noteq> NoFault \<and>
   \<not> f64_ge (refilled test_limiter 1000 (redis_with ''192.168.1.100'' (Fin 0) 1000)
      ''192.168.1.100'') (Fin 1) \<and>
   fst (AllowRequest test_limiter 1000 (empty_redis\<lparr>faults := [NoFault, NoFault, Dropped]\<rparr>)
      ''192.168.1.100'') =
   fst (AllowRequest test_limiter 1000 (redis_with ''192.168.1.100'' (Fin 0) 1000)
      ''192.168.1.100'') \<and>
   fst (RateLimitMiddleware test_limiter ''/api'' ''Rate limit exceeded. Please try again later.''
      1000 (empty_redis\<lparr>faults := [NoFault, NoFault, Dropped]\<rparr>) ''192.168.1.100'') =
   fst (RateLimitMiddleware test_limiter ''/api'' ''Rate limit exceeded. Please try again later.''
      1000 (redis_with ''192.168.1.100'' (Fin 0) 1000) ''192.168.1.100'')"
  by (simp add: refilled_test_fresh refilled_test_drained AllowRequest_unfold
      RateLimitMiddleware_def)

subsection \<open>C8: the constructor\<close>

text \<open>
  C8, as amended. \<open>NewRedisTokenBucket\<close> validates nothing: for every capacity, refill
  rate and TTL it returns a limiter holding exactly these values. A capacity below 1 shows
  at call time only, where every request is denied.
\<close>

theorem constructor_accepts_any_configuration:
  "\<exists>rtb. NewRedisTokenBucket cl cap rate t = Some rtb \<and>
         client rtb = cl \<and> capacity rtb = cap \<and> refillRate rtb = rate \<and> ttl rtb = t \<and>
         (f64_lt cap (Fin 1) \<longrightarrow> (\<forall>now r ip. \<not> fst (AllowRequest rtb now r ip)))"
  by (simp add: NewRedisTokenBucket_def AllowRequest_unfold below_one_denied)

theorem constructor_accepts_any_configuration_witness:
  "f64_lt (Fin (- 5)) (Fin 1) \<and>
   (\<exists>rtb. NewRedisTokenBucket test_client (Fin (- 5)) (Fin 1) 0 = Some rtb \<and>
          capacity rtb = Fin (- 5) \<and> ttl rtb = 0 \<and>
          \<not> fst (AllowRequest rtb 1000 empty_redis ''192.168.1.100''))"
  using constructor_accepts_any_configuration [of test_client "Fin (- 5)" "Fin 1" 0]
  by auto

text \<open>C8 as stated fails: capacity \<open>-5\<close> and TTL \<open>0\<close> yield a limiter.\<close>

theorem constructor_rejects_counterexample:
  "f64_ge (Fin 0) (Fin (- 5)) \<and> sint (0 :: int64) \<le> 0 \<and>
   NewRedisTokenBucket test_client (Fin (- 5)) (Fin 1) 0 \<noteq> None"
  by (simp add: NewRedisTokenBucket_def)

subsection \<open>C9: the keys\<close>

text \<open>
  C9. For every identifier, \<open>AllowRequest\<close> reads \<open>rate_limit:ip:<identifier>:tokens\<close>
  and \<open>rate_limit:ip:<identifier>:last_updated\<close>, in this order; when it commits it writes
  a \<open>float64\<close> to the first and the \<open>int64\<close> clock reading to the second; every other
  key of the store is left as it was.
\<close>

theorem keys_read_and_written:
  "history (snd (snd (AllowRequest rtb now r ip))) =
     history r @
       [GET (''rate_limit:ip:'' @ ip @ '':tokens''),
        GET (''rate_limit:ip:'' @ ip @ '':last_updated'')] @
       (if f64_ge (refilled rtb now r ip) (Fin 1)
        then [MULTI_EXEC
                [SET (''rate_limit:ip:'' @ ip @ '':tokens'')
                   (float_arg (f64_sub (refilled rtb now r ip) (Fin 1))) (ttl rtb),
                 SET (''rate_limit:ip:'' @ ip @ '':last_updated'') (int_arg now) (ttl rtb)]]
        else []) \<and>
   (\<forall>k. k \<noteq> ''rate_limit:ip:'' @ ip @ '':tokens'' \<and>
        k \<noteq> ''rate_limit:ip:'' @ ip @ '':last_updated'' \<longrightarrow>
        kv (snd (snd (AllowRequest rtb now r ip))) k = kv r k)"
  by (simp add: AllowRequest_unfold apply_commit_batch)
     (simp add: commit_batch_def tokens_key_def last_updated_key_def)

theorem keys_read_and_written_witness:
  "history (snd (snd (AllowRequest test_limiter 1000 empty_redis ''192.168.1.100''))) =
     [GET ''rate_limit:ip:192.168.1.100:tokens'',
      GET ''rate_limit:ip:192.168.1.100:last_updated'',
      MULTI_EXEC
        [SET ''rate_limit:ip:192.168.1.100:tokens'' (float_arg (Fin 2)) 10000000000,
         SET ''rate_limit:ip:192.168.1.100:last_updated'' (int_arg 1000) 10000000000]] \<and>
   ''rate_limit:ip:10.0.0.1:tokens'' \<noteq> ''rate_limit:ip:'' @ ''192.168.1.100'' @ '':tokens'' \<and>
   ''rate_limit:ip:10.0.0.1:tokens'' \<noteq>
     ''rate_limit:ip:'' @ ''192.168.1.100'' @ '':last_updated'' \<and>
   kv (snd (snd (AllowRequest test_limiter 1000 empty_redis ''192.168.1.100'')))
      ''rate_limit:ip:10.0.0.1:tokens'' = kv empty_redis ''rate_limit:ip:10.0.0.1:tokens''"
proof -
  note t = keys_read_and_written [of test_limiter 1000 empty_redis "''192.168.1.100''"]
  have n: "''rate_limit:ip:10.0.0.1:tokens'' \<noteq> ''rate_limit:ip:'' @ ''192.168.1.100'' @ '':tokens'' \<and>
           ''rate_limit:ip:10.0.0.1:tokens'' \<noteq>
             ''rate_limit:ip:'' @ ''192.168.1.100'' @ '':last_updated''"
    by simp
  have "kv (snd (snd (AllowRequest test_limiter 1000 empty_redis ''192.168.1.100'')))
          ''rate_limit:ip:10.0.0.1:tokens'' = kv empty_redis ''rate_limit:ip:10.0.0.1:tokens''"
    using t [THEN conjunct2, rule_format, OF n] .
  moreover have "history (snd (snd (AllowRequest test_limiter 1000 empty_redis ''192.168.1.100''))) =
     [GET ''rate_limit:ip:192.168.1.100:tokens'',
      GET ''rate_limit:ip:192.168.1.100:last_updated'',
      MULTI_EXEC
        [SET ''rate_limit:ip:192.168.1.100:tokens'' (float_arg (Fin 2)) 10000000000,
         SET ''rate_limit:ip:192.168.1.100:last_updated'' (int_arg 1000) 10000000000]]"
    using t [THEN conjunct1] by (simp add: refilled_test_fresh sub_3_1)
  ultimately show ?thesis using n by simp
qed

subsection \<open>C10: a capacity below one\<close>

text \<open>
  C10. If the capacity is below 1, \<open>AllowRequest\<close> returns false for every identifier,
  every state of the store and every clock reading.
\<close>

theorem capacity_below_one_never_allows:
  assumes "f64_lt (capacity rtb) (Fin 1)"
  shows "\<not> fst (AllowRequest rtb now r ip)"
  using below_one_denied [OF assms] by (simp add: AllowRequest_unfold)

theorem capacity_below_one_never_allows_witness:
  "f64_lt (capacity (test_limiter\<lparr>capacity := Fin (1 / 2)\<rparr>)) (Fin 1) \<and>
   \<not> fst (AllowRequest (test_limiter\<lparr>capacity := Fin (1 / 2)\<rparr>) 1000 empty_redis
          ''192.168.1.100'')"
proof -
  have h: "f64_lt (capacity (test_limiter\<lparr>capacity := Fin (1 / 2)\<rparr>)) (Fin 1)" by simp
  from h capacity_below_one_never_allows [OF h] show ?thesis by blast
qed

end
